theory Spec2Isabelle
  imports Main "HOL-Library.Word" "HOL-Library.Sublist"
begin

section \<open>Managed PCI hotplug (xbmgmt, cmd\_hotplug.cpp)\<close>

text \<open>
  A shallow embedding of \<^verbatim>\<open>src/runtime_src/core/pcie/tools/xbmgmt/cmd_hotplug.cpp\<close>:
  the option loop and the offline/online sequence of \<^verbatim>\<open>hotplugHandler\<close>,
  \<^verbatim>\<open>shutdownDevice\<close>, \<^verbatim>\<open>removeDevice\<close>, \<^verbatim>\<open>findXilinxRootPort\<close> and
  \<^verbatim>\<open>hotplugRescan\<close>. Everything outside the process (the sysfs tree, the device
  attributes, the operator, the C library) is a parameter of the model, collected in the
  record \<open>env\<close>; every function returns its C return value together with the list of
  the operations it performed on that outside world, in program order. Console output
  is not modelled.
\<close>

subsection \<open>Constants of the source\<close>

definition SYSFS_PATH :: string where
  "SYSFS_PATH = ''/sys/bus/pci/devices''"

definition XILINX_VENDOR :: string where
  "XILINX_VENDOR = ''0x10ee''"

definition XILINX_US :: string where
  "XILINX_US = ''0x9134''"

definition POLL_TIMEOUT :: nat where
  "POLL_TIMEOUT = 60"

text \<open>The values of \<^verbatim>\<open><errno.h>\<close> on Linux, and \<^verbatim>\<open>UINT_MAX\<close> of a 32-bit unsigned.\<close>

definition ENOENT :: int where
  "ENOENT = 2"

definition EINVAL :: int where
  "EINVAL = 22"

definition ETIMEDOUT :: int where
  "ETIMEDOUT = 110"

definition ECANCELED :: int where
  "ECANCELED = 125"

definition UINT_MAX :: "32 word" where
  "UINT_MAX = - 1"

lemmas errno_defs = ENOENT_def EINVAL_def ETIMEDOUT_def ECANCELED_def

subsection \<open>Paths and text attributes\<close>

text \<open>
  A \<^verbatim>\<open>boost::filesystem::path\<close> is its string. \<open>path_append p q\<close> is \<^verbatim>\<open>p /= q\<close>
  as Boost.Filesystem documents it: nothing happens for an empty \<open>q\<close>; otherwise a
  separator is inserted unless \<open>p\<close> is empty, \<open>p\<close> already ends in one or \<open>q\<close>
  starts with one, and then \<open>q\<close> is appended.
\<close>

definition is_separator :: "char \<Rightarrow> bool" where
  "is_separator c = (c = CHR ''/'')"

definition path_append :: "string \<Rightarrow> string \<Rightarrow> string" where
  "path_append p q =
     (if q = [] then p
      else if is_separator (hd q) then p @ q
      else if p \<noteq> [] \<and> \<not> is_separator (last p) then p @ ''/'' @ q
      else p @ q)"

text \<open>
  An attribute file of a child directory, as \<^verbatim>\<open>exists\<close> and the input stream see it:
  no such file, a file that cannot be opened, or a file with its content.
\<close>

datatype attr_file = NoFile | Unopenable | Content string

text \<open>White space of the C locale, which \<^verbatim>\<open>operator>>\<close> skips and stops at.\<close>

definition isspace :: "char \<Rightarrow> bool" where
  "isspace c = (c \<in> set [CHR '' '', CHR 0x09, CHR 0x0A, CHR 0x0B, CHR 0x0C, CHR 0x0D])"

text \<open>
  \<open>read_attr f old\<close> is the value of the string variable after
  \<^verbatim>\<open>if (exists(p)) { ifstream file(p); file >> var; file.close(); }\<close>
  when it held \<open>old\<close> before. The stream has no exception mask, so nothing is thrown
  (the \<^verbatim>\<open>catch\<close> of the source is never entered): a stream that failed to open, or
  that ends before any non-space character, fails at the sentry of \<^verbatim>\<open>operator>>\<close>
  and the variable keeps its old value.
\<close>

fun read_attr :: "attr_file \<Rightarrow> string \<Rightarrow> string" where
  "read_attr NoFile old = old"
| "read_attr Unopenable old = old"
| "read_attr (Content s) old =
     (let tok = takeWhile (\<lambda>c. \<not> isspace c) (dropWhile isspace s)
      in if tok = [] then old else tok)"

subsection \<open>The sysfs tree seen by the root-port search\<close>

text \<open>
  The entries of \<^verbatim>\<open>/sys/bus/pci/devices\<close> and, for each of them, the entries of its
  directory, both in the order in which \<^verbatim>\<open>directory_iterator\<close> enumerates them.
  Every top-level entry is taken to be a directory that can be listed (in sysfs each is
  a link to a device directory).
\<close>

record child =
  c_name :: string
  c_is_dir :: bool
  c_vendor :: attr_file
  c_device :: attr_file

record bridge =
  b_name :: string
  b_children :: "child list"

subsection \<open>findXilinxRootPort\<close>

text \<open>
  The inner loop over the entries of one top-level directory. The pair is the state
  of the two variables \<^verbatim>\<open>vendor_id\<close> and \<^verbatim>\<open>device_id\<close>, which the source declares
  once, before both loops; the result says whether the loop left by
  \<^verbatim>\<open>return rootPortPath\<close>, and gives the variables as the loop leaves them.
\<close>

fun scan_children :: "child list \<Rightarrow> string \<times> string \<Rightarrow> bool \<times> (string \<times> string)" where
  "scan_children [] ids = (False, ids)"
| "scan_children (c # cs) (vendor_id, device_id) =
     (if \<not> c_is_dir c then scan_children cs (vendor_id, device_id)
      else
        let vendor_id' = read_attr (c_vendor c) vendor_id;
            device_id' = read_attr (c_device c) device_id
        in if vendor_id' = XILINX_VENDOR \<and> device_id' = XILINX_US
           then (True, (vendor_id', device_id'))
           else scan_children cs (vendor_id', device_id'))"

text \<open>
  The outer loop. \<^verbatim>\<open>rootPortPath\<close> is the path of the current top-level entry while
  its children are scanned and is reset to the empty path after them, so the function
  returns the empty path when the loop runs out.
\<close>

fun scan_bridges :: "bridge list \<Rightarrow> string \<times> string \<Rightarrow> string" where
  "scan_bridges [] ids = []"
| "scan_bridges (b # bs) ids =
     (case scan_children (b_children b) ids of
        (True, _) \<Rightarrow> path_append SYSFS_PATH (b_name b)
      | (False, ids') \<Rightarrow> scan_bridges bs ids')"

definition findXilinxRootPort :: "bridge list \<Rightarrow> string" where
  "findXilinxRootPort tree = scan_bridges tree ([], [])"

subsection \<open>The outside world and the operations performed on it\<close>

text \<open>
  \<^item> \<open>sudo_ok\<close>: \<^verbatim>\<open>sudoOrDie()\<close> returns (otherwise it ends the process);
  \<^item> \<open>bdf2index\<close>: the index of the device named on the command line, \<^verbatim>\<open>UINT_MAX\<close>
    when there is none;
  \<^item> \<open>canProceed\<close>: the operator's answer to the confirmation prompt;
  \<^item> \<open>attr_exists i u a\<close>: \<^verbatim>\<open>boost::filesystem::exists\<close> on the path of attribute
    \<open>a\<close> of device \<open>i\<close> (user function when \<open>u\<close>);
  \<^item> \<open>sysfs_put i u a v\<close>: the error message left by writing \<open>v\<close> to that attribute,
    empty on success;
  \<^item> \<open>sysfs_get i u a k\<close>: the error message and the integer delivered by the read of
    that attribute in poll iteration \<open>k\<close> (counted from 0);
  \<^item> \<open>tree\<close>: the sysfs tree at the time of the root-port search;
  \<^item> \<open>ofile_open p\<close>, \<open>ofile_write p\<close>: \<open>None\<close> when opening \<open>p\<close> for writing
    (writing and flushing) succeeds, otherwise the value of \<^verbatim>\<open>errno\<close> that the
    failing branch returns negated.
\<close>

record env =
  sudo_ok :: bool
  bdf2index :: "string \<Rightarrow> 32 word"
  canProceed :: bool
  attr_exists :: "32 word \<Rightarrow> bool \<Rightarrow> string \<Rightarrow> bool"
  sysfs_put :: "32 word \<Rightarrow> bool \<Rightarrow> string \<Rightarrow> string \<Rightarrow> string"
  sysfs_get :: "32 word \<Rightarrow> bool \<Rightarrow> string \<Rightarrow> nat \<Rightarrow> string \<times> int"
  tree :: "bridge list"
  ofile_open :: "string \<Rightarrow> int option"
  ofile_write :: "string \<Rightarrow> int option"

datatype event =
    FsExists "32 word" bool string
  | SysfsPut "32 word" bool string string
  | Sleep nat
  | SysfsGet "32 word" bool string
  | ScanBus
  | OfOpen string
  | OfWrite string string
  | OfClose string

subsection \<open>hotplugRescan\<close>

definition hotplugRescan :: "env \<Rightarrow> int \<times> event list" where
  "hotplugRescan e =
     (let sysfs_path = path_append (findXilinxRootPort (tree e)) ''rescan''
      in if sysfs_path = [] then (- ENOENT, [ScanBus])
         else
           (case ofile_open e sysfs_path of
              Some errno \<Rightarrow> (- errno, [ScanBus, OfOpen sysfs_path])
            | None \<Rightarrow>
                (case ofile_write e sysfs_path of
                   Some errno \<Rightarrow>
                     (- errno, [ScanBus, OfOpen sysfs_path, OfWrite sysfs_path ''1'',
                                OfClose sysfs_path])
                 | None \<Rightarrow>
                     (0, [ScanBus, OfOpen sysfs_path, OfWrite sysfs_path ''1'',
                          OfClose sysfs_path]))))"

subsection \<open>shutdownDevice and removeDevice\<close>

text \<open>
  The \<^verbatim>\<open>do ... while (++wait < POLL_TIMEOUT)\<close> loop of \<^verbatim>\<open>shutdownDevice\<close>, entered
  with the counter at \<open>wait\<close>: sleep, read the status, leave with \<^verbatim>\<open>-EINVAL\<close> on a
  read error and with 0 on status 1, otherwise count and go round again, and fall out
  to \<^verbatim>\<open>return -ETIMEDOUT\<close> when the counter reaches the limit.
\<close>

function poll_shutdown :: "env \<Rightarrow> 32 word \<Rightarrow> bool \<Rightarrow> nat \<Rightarrow> int \<times> event list" where
  "poll_shutdown e index is_userpf wait =
     (let errmsg = fst (sysfs_get e index is_userpf ''shutdown'' wait);
          shutdownStatus = snd (sysfs_get e index is_userpf ''shutdown'' wait);
          evs = [Sleep 1, SysfsGet index is_userpf ''shutdown'']
      in if errmsg \<noteq> [] then (- EINVAL, evs)
         else if shutdownStatus = 1 then (0, evs)
         else if wait + 1 < POLL_TIMEOUT then
           (case poll_shutdown e index is_userpf (wait + 1) of
              (ret, rest) \<Rightarrow> (ret, evs @ rest))
         else (- ETIMEDOUT, evs))"
  by pat_completeness auto
termination
  by (relation "measure (\<lambda>(e, index, is_userpf, wait). POLL_TIMEOUT - wait)") auto

declare poll_shutdown.simps [simp del]

definition shutdownDevice :: "env \<Rightarrow> 32 word \<Rightarrow> bool \<Rightarrow> int \<times> event list" where
  "shutdownDevice e index is_userpf =
     (if \<not> attr_exists e index is_userpf ''shutdown''
      then (- ENOENT, [FsExists index is_userpf ''shutdown''])
      else if sysfs_put e index is_userpf ''shutdown'' ''1'' \<noteq> []
      then (- EINVAL, [FsExists index is_userpf ''shutdown'',
                       SysfsPut index is_userpf ''shutdown'' ''1''])
      else
        (case poll_shutdown e index is_userpf 0 of
           (ret, rest) \<Rightarrow>
             (ret, [FsExists index is_userpf ''shutdown'',
                    SysfsPut index is_userpf ''shutdown'' ''1''] @ rest)))"

definition removeDevice :: "env \<Rightarrow> 32 word \<Rightarrow> bool \<Rightarrow> int \<times> event list" where
  "removeDevice e index is_userpf =
     (if sysfs_put e index is_userpf ''remove'' ''1'' \<noteq> []
      then (- EINVAL, [SysfsPut index is_userpf ''remove'' ''1''])
      else (0, [SysfsPut index is_userpf ''remove'' ''1'']))"

subsection \<open>The option loop of hotplugHandler\<close>

text \<open>
  \<^verbatim>\<open>getopt_long(argc, argv, "", opts, nullptr)\<close> for the option table of the source
  (\<^verbatim>\<open>offline\<close> with a required argument, value \<^verbatim>\<open>'0'\<close>; \<^verbatim>\<open>online\<close> without
  argument, value \<^verbatim>\<open>'1'\<close>), following the C library's documentation: the result of
  one call and the arguments left for the next one. An argument that is not an option
  is passed over; \<^verbatim>\<open>--\<close> ends the options; a long option may be abbreviated to a
  prefix that only one name has, and takes its value after \<^verbatim>\<open>=\<close> or, for
  \<^verbatim>\<open>offline\<close>, from the next argument; with the empty short-option string every
  short option is unknown. \<open>GetoptEnd\<close> is the result \<^verbatim>\<open>-1\<close>, \<open>GetoptUnknown\<close>
  the result \<^verbatim>\<open>'?'\<close>.
\<close>

datatype getopt_result = GetoptEnd | GetoptOffline string | GetoptOnline | GetoptUnknown

datatype long_option = OptOffline | OptOnline

definition match_long :: "string \<Rightarrow> long_option option" where
  "match_long name =
     (if name = ''offline'' then Some OptOffline
      else if name = ''online'' then Some OptOnline
      else if prefix name ''offline'' \<and> \<not> prefix name ''online'' then Some OptOffline
      else if prefix name ''online'' \<and> \<not> prefix name ''offline'' then Some OptOnline
      else None)"

fun getopt_long :: "string list \<Rightarrow> getopt_result \<times> string list" where
  "getopt_long [] = (GetoptEnd, [])"
| "getopt_long (a # rest) =
     (if a = ''--'' then (GetoptEnd, rest)
      else if take 2 a = ''--'' then
        (let body = drop 2 a;
             name = takeWhile (\<lambda>c. c \<noteq> CHR ''='') body;
             has_value = (CHR ''='' \<in> set body);
             val = drop (length name + 1) body
         in case match_long name of
              Some OptOffline \<Rightarrow>
                (if has_value then (GetoptOffline val, rest)
                 else (case rest of
                         [] \<Rightarrow> (GetoptUnknown, [])
                       | optarg # rest' \<Rightarrow> (GetoptOffline optarg, rest')))
            | Some OptOnline \<Rightarrow>
                (if has_value then (GetoptUnknown, rest) else (GetoptOnline, rest))
            | None \<Rightarrow> (GetoptUnknown, rest))
      else if take 1 a = ''-'' \<and> a \<noteq> ''-'' then (GetoptUnknown, rest)
      else getopt_long rest)"

lemma getopt_long_shorter:
  "fst (getopt_long args) \<noteq> GetoptEnd \<Longrightarrow> length (snd (getopt_long args)) < length args"
proof (induction args)
  case Nil
  then show ?case by simp
next
  case (Cons a rest)
  consider (dashes) "a = ''--''"
    | (long) "a \<noteq> ''--''" "take 2 a = ''--''"
    | (short) "a \<noteq> ''--''" "take 2 a \<noteq> ''--''" "take 1 a = ''-'' \<and> a \<noteq> ''-''"
    | (skip) "a \<noteq> ''--''" "take 2 a \<noteq> ''--''" "\<not> (take 1 a = ''-'' \<and> a \<noteq> ''-'')"
    by blast
  then show ?case
  proof cases
    case dashes
    then show ?thesis by simp
  next
    case long
    then show ?thesis
      by (simp add: Let_def split: option.splits long_option.splits list.splits)
  next
    case short
    then show ?thesis by simp
  next
    case skip
    then have same: "getopt_long (a # rest) = getopt_long rest"
      by simp blast
    with Cons.prems have "fst (getopt_long rest) \<noteq> GetoptEnd"
      by simp
    then have "length (snd (getopt_long rest)) < length rest"
      by (rule Cons.IH)
    then show ?thesis
      by (simp add: same del: getopt_long.simps)
  qed
qed

text \<open>
  The \<^verbatim>\<open>while (true)\<close> loop around \<^verbatim>\<open>getopt_long\<close>: \<open>Inl\<close> is the value of an early
  \<^verbatim>\<open>return\<close>, \<open>Inr\<close> the variables \<^verbatim>\<open>index\<close>, \<^verbatim>\<open>isRemove\<close> and \<^verbatim>\<open>isRescan\<close>
  at the \<^verbatim>\<open>break\<close> (the two flags only ever hold 0 or 1).
\<close>

function opt_loop ::
  "env \<Rightarrow> string list \<Rightarrow> 32 word \<Rightarrow> bool \<Rightarrow> bool \<Rightarrow> int + (32 word \<times> bool \<times> bool)" where
  "opt_loop e args index isRemove isRescan =
     (let opt = fst (getopt_long args); args' = snd (getopt_long args)
      in case opt of
           GetoptEnd \<Rightarrow> Inr (index, isRemove, isRescan)
         | GetoptOffline optarg \<Rightarrow>
             (if bdf2index e optarg = UINT_MAX then Inl (- ENOENT)
              else opt_loop e args' (bdf2index e optarg) True isRescan)
         | GetoptOnline \<Rightarrow> opt_loop e args' index isRemove True
         | GetoptUnknown \<Rightarrow> Inl (- EINVAL))"
  by pat_completeness auto
termination
proof (relation "measure (\<lambda>(e, args, index, isRemove, isRescan). length args)")
  show "wf (measure (\<lambda>(e, args, index, isRemove, isRescan). length args))"
    by simp
next
  fix e :: env and args :: "string list" and index :: "32 word"
    and isRemove isRescan :: bool and x xa x2
  assume a: "x = fst (getopt_long args)" "xa = snd (getopt_long args)" "x = GetoptOffline x2"
  then have "fst (getopt_long args) \<noteq> GetoptEnd"
    by auto
  then have "length xa < length args"
    using getopt_long_shorter [of args] a(2) by simp
  then show "((e, xa, bdf2index e x2, True, isRescan), (e, args, index, isRemove, isRescan))
      \<in> measure (\<lambda>(e, args, index, isRemove, isRescan). length args)"
    by simp
next
  fix e :: env and args :: "string list" and index :: "32 word"
    and isRemove isRescan :: bool and x xa
  assume a: "x = fst (getopt_long args)" "xa = snd (getopt_long args)" "x = GetoptOnline"
  then have "fst (getopt_long args) \<noteq> GetoptEnd"
    by auto
  then have "length xa < length args"
    using getopt_long_shorter [of args] a(2) by simp
  then show "((e, xa, index, isRemove, True), (e, args, index, isRemove, isRescan))
      \<in> measure (\<lambda>(e, args, index, isRemove, isRescan). length args)"
    by simp
qed

declare opt_loop.simps [simp del]

subsection \<open>hotplugHandler\<close>

text \<open>The \<^verbatim>\<open>if (isRescan)\<close> block and the final \<^verbatim>\<open>return ret\<close>.\<close>

definition online_step :: "env \<Rightarrow> bool \<Rightarrow> int \<Rightarrow> event list \<Rightarrow> int \<times> event list" where
  "online_step e isRescan ret done =
     (if isRescan
      then (case hotplugRescan e of (ret', evs) \<Rightarrow> (ret', done @ evs))
      else (ret, done))"

text \<open>The handler from \<^verbatim>\<open>if (isRemove)\<close> to its end.\<close>

definition hotplug_steps :: "env \<Rightarrow> 32 word \<Rightarrow> bool \<Rightarrow> bool \<Rightarrow> int \<times> event list" where
  "hotplug_steps e index isRemove isRescan =
     (if isRemove then
        (case shutdownDevice e index True of
           (ret, evs1) \<Rightarrow>
             if ret \<noteq> 0 then (if ret = - ENOENT then (0, evs1) else (- EINVAL, evs1))
             else
               (case removeDevice e index True of
                  (ret, evs2) \<Rightarrow>
                    if ret \<noteq> 0 then (ret, evs1 @ evs2)
                    else
                      (case removeDevice e index False of
                         (ret, evs3) \<Rightarrow>
                           if ret \<noteq> 0 then (ret, evs1 @ evs2 @ evs3)
                           else online_step e isRescan ret (evs1 @ evs2 @ evs3))))
      else online_step e isRescan 0 [])"

text \<open>
  \<open>argv\<close> is the argument vector, \<^verbatim>\<open>argc\<close> its length and \<open>argv ! 0\<close> the command
  name, which \<^verbatim>\<open>getopt_long\<close> does not scan. \<open>None\<close>: the process ended inside
  \<^verbatim>\<open>sudoOrDie\<close> and the handler never returned.
\<close>

definition hotplugHandler :: "env \<Rightarrow> string list \<Rightarrow> (int \<times> event list) option" where
  "hotplugHandler e argv =
     (if \<not> sudo_ok e then None
      else if length argv < 2 then Some (- EINVAL, [])
      else
        (case opt_loop e (tl argv) UINT_MAX False False of
           Inl ret \<Rightarrow> Some (ret, [])
         | Inr (index, isRemove, isRescan) \<Rightarrow>
             if \<not> canProceed e then Some (- ECANCELED, [])
             else Some (hotplug_steps e index isRemove isRescan)))"

subsection \<open>Observations on the list of operations\<close>

text \<open>A write to a \<^verbatim>\<open>remove\<close> attribute, which is what \<^verbatim>\<open>removeDevice\<close> performs.\<close>

fun is_remove :: "event \<Rightarrow> bool" where
  "is_remove (SysfsPut index is_userpf attr val) = (attr = ''remove'')"
| "is_remove _ = False"

text \<open>The operations of the online path: the directory walk and the rescan stream.\<close>

fun is_online :: "event \<Rightarrow> bool" where
  "is_online ScanBus = True"
| "is_online (OfOpen p) = True"
| "is_online (OfWrite p val) = True"
| "is_online (OfClose p) = True"
| "is_online _ = False"

text \<open>From the first operation of the online path on, only such operations follow.\<close>

definition offline_then_online :: "event list \<Rightarrow> bool" where
  "offline_then_online evs = list_all is_online (dropWhile (\<lambda>ev. \<not> is_online ev) evs)"

text \<open>
  A child entry whose own attributes carry the accelerator's identity: it is a
  directory, and its \<^verbatim>\<open>vendor\<close> and \<^verbatim>\<open>device\<close> files read as the two known
  identifiers.
\<close>

definition child_matches :: "child \<Rightarrow> bool" where
  "child_matches c =
     (c_is_dir c \<and> read_attr (c_vendor c) [] = XILINX_VENDOR
      \<and> read_attr (c_device c) [] = XILINX_US)"

definition vendor_matches :: "child \<Rightarrow> bool" where
  "vendor_matches c = (c_is_dir c \<and> read_attr (c_vendor c) [] = XILINX_VENDOR)"

definition device_matches :: "child \<Rightarrow> bool" where
  "device_matches c = (c_is_dir c \<and> read_attr (c_device c) [] = XILINX_US)"

subsection \<open>Concrete environments\<close>

text \<open>
  A device tree with one bridge whose child directory carries both identifiers of the
  accelerator.
\<close>

definition card_tree :: "bridge list" where
  "card_tree =
     [\<lparr> b_name = ''0000:00:01.0'',
        b_children =
          [\<lparr> c_name = ''power'', c_is_dir = True, c_vendor = NoFile, c_device = NoFile \<rparr>,
           \<lparr> c_name = ''0000:01:00.0'', c_is_dir = True,
              c_vendor = Content ''0x10ee\<newline>'', c_device = Content ''0x9134\<newline>'' \<rparr>] \<rparr>]"

text \<open>
  A host with one card at \<^verbatim>\<open>0000:01:00.0\<close> (index 0) whose attributes all exist and
  accept writes, whose shutdown status reads 1 at once, an operator who confirms, the
  device tree above, and files that open and take the write.
\<close>

definition host_env :: env where
  "host_env =
     \<lparr> sudo_ok = True,
       bdf2index = (\<lambda>bdf. if bdf = ''0000:01:00.0'' then 0 else UINT_MAX),
       canProceed = True,
       attr_exists = (\<lambda>index is_userpf attr. True),
       sysfs_put = (\<lambda>index is_userpf attr val. []),
       sysfs_get = (\<lambda>index is_userpf attr k. ([], 1)),
       tree = card_tree,
       ofile_open = (\<lambda>p. None),
       ofile_write = (\<lambda>p. None) \<rparr>"

text \<open>The same host with a device that never reports the shutdown as done.\<close>

definition stuck_env :: env where
  "stuck_env = host_env \<lparr> sysfs_get := (\<lambda>index is_userpf attr k. ([], 0)) \<rparr>"

text \<open>The same host without the \<^verbatim>\<open>shutdown\<close> attribute (the card is not exposed).\<close>

definition absent_env :: env where
  "absent_env = host_env \<lparr> attr_exists := (\<lambda>index is_userpf attr. False) \<rparr>"

text \<open>The same host where the \<^verbatim>\<open>remove\<close> attribute of the user function rejects the write.\<close>

definition remove_fails_env :: env where
  "remove_fails_env =
     host_env \<lparr> sysfs_put := (\<lambda>index is_userpf attr val.
        if attr = ''remove'' \<and> is_userpf then ''write failed'' else []) \<rparr>"

text \<open>The same host with an empty device tree.\<close>

definition empty_bus_env :: env where
  "empty_bus_env = host_env \<lparr> tree := [] \<rparr>"

definition offline_args :: "string list" where
  "offline_args = [''hotplug'', ''--offline'', ''0000:01:00.0'']"

definition offline_online_args :: "string list" where
  "offline_online_args = [''hotplug'', ''--offline'', ''0000:01:00.0'', ''--online'']"

text \<open>
  One bridge with two child directories: the first matches on the vendor only, the
  second has no \<^verbatim>\<open>vendor\<close> file and matches on the device only.
\<close>

definition split_identity_tree :: "bridge list" where
  "split_identity_tree =
     [\<lparr> b_name = ''0000:00:01.0'',
        b_children =
          [\<lparr> c_name = ''0000:01:00.0'', c_is_dir = True,
              c_vendor = Content ''0x10ee\<newline>'', c_device = Content ''0x5000\<newline>'' \<rparr>,
           \<lparr> c_name = ''0000:01:00.1'', c_is_dir = True,
              c_vendor = NoFile, c_device = Content ''0x9134\<newline>'' \<rparr>] \<rparr>]"

text \<open>
  Two bridges with one child directory each: the first child has the vendor of the
  accelerator and another device; the \<^verbatim>\<open>vendor\<close> file of the second cannot be
  opened, and its device is the accelerator's.
\<close>

definition unreadable_vendor_tree :: "bridge list" where
  "unreadable_vendor_tree =
     [\<lparr> b_name = ''0000:00:01.0'',
        b_children =
          [\<lparr> c_name = ''0000:01:00.0'', c_is_dir = True,
              c_vendor = Content ''0x10ee\<newline>'', c_device = Content ''0x5000\<newline>'' \<rparr>] \<rparr>,
      \<lparr> b_name = ''0000:00:02.0'',
        b_children =
          [\<lparr> c_name = ''0000:02:00.0'', c_is_dir = True,
              c_vendor = Unopenable, c_device = Content ''0x9134\<newline>'' \<rparr>] \<rparr>]"

text \<open>
  A child directory as sysfs presents it: either a device directory, where both
  \<^verbatim>\<open>vendor\<close> and \<^verbatim>\<open>device\<close> deliver a word, or some other directory, where
  neither does.
\<close>

definition delivers :: "attr_file \<Rightarrow> bool" where
  "delivers f = (read_attr f [] \<noteq> [])"

definition both_or_neither :: "child \<Rightarrow> bool" where
  "both_or_neither c =
     (\<not> c_is_dir c \<or> delivers (c_vendor c) = delivers (c_device c))"

definition has_matching_child :: "bridge \<Rightarrow> bool" where
  "has_matching_child b = list_ex child_matches (b_children b)"

subsection \<open>Facts about the parts\<close>

lemma path_append_rescan_nonempty: "path_append p ''rescan'' \<noteq> []"
  by (simp add: path_append_def)

lemma hotplugRescan_opens:
  "OfOpen (path_append (findXilinxRootPort (tree e)) ''rescan'') \<in> set (snd (hotplugRescan e))"
  by (simp add: hotplugRescan_def Let_def path_append_rescan_nonempty split: option.splits)

lemma hotplugRescan_no_remove: "filter is_remove (snd (hotplugRescan e)) = []"
  by (simp add: hotplugRescan_def Let_def split: option.splits)

lemma hotplugRescan_online: "list_all is_online (snd (hotplugRescan e))"
  by (simp add: hotplugRescan_def Let_def split: option.splits)

lemma poll_shutdown_no_remove: "filter is_remove (snd (poll_shutdown e index u wait)) = []"
proof (induction e index u wait rule: poll_shutdown.induct)
  case (1 e index u wait)
  show ?case
  proof (cases "fst (sysfs_get e index u ''shutdown'' wait) = []
      \<and> snd (sysfs_get e index u ''shutdown'' wait) \<noteq> 1 \<and> wait + 1 < POLL_TIMEOUT")
    case True
    then have "filter is_remove (snd (poll_shutdown e index u (wait + 1))) = []"
      using "1.IH" by simp
    with True show ?thesis
      by (subst poll_shutdown.simps) (auto simp: Let_def split: prod.splits)
  next
    case False
    then show ?thesis
      by (subst poll_shutdown.simps) (auto simp: Let_def)
  qed
qed

lemma poll_shutdown_offline: "filter is_online (snd (poll_shutdown e index u wait)) = []"
proof (induction e index u wait rule: poll_shutdown.induct)
  case (1 e index u wait)
  show ?case
  proof (cases "fst (sysfs_get e index u ''shutdown'' wait) = []
      \<and> snd (sysfs_get e index u ''shutdown'' wait) \<noteq> 1 \<and> wait + 1 < POLL_TIMEOUT")
    case True
    then have "filter is_online (snd (poll_shutdown e index u (wait + 1))) = []"
      using "1.IH" by simp
    with True show ?thesis
      by (subst poll_shutdown.simps) (auto simp: Let_def split: prod.splits)
  next
    case False
    then show ?thesis
      by (subst poll_shutdown.simps) (auto simp: Let_def)
  qed
qed

lemma shutdownDevice_no_remove: "filter is_remove (snd (shutdownDevice e index u)) = []"
  using poll_shutdown_no_remove [of e index u 0]
  by (auto simp: shutdownDevice_def split: prod.splits)

lemma shutdownDevice_offline: "filter is_online (snd (shutdownDevice e index u)) = []"
  using poll_shutdown_offline [of e index u 0]
  by (auto simp: shutdownDevice_def split: prod.splits)

text \<open>
  When every read from iteration \<open>wait\<close> on succeeds with a status other than 1, the
  loop runs until the counter reaches the limit and leaves with \<^verbatim>\<open>-ETIMEDOUT\<close>.
\<close>

lemma poll_shutdown_timeout:
  assumes "wait < POLL_TIMEOUT"
    and "\<forall>k. wait \<le> k \<and> k < POLL_TIMEOUT \<longrightarrow>
           fst (sysfs_get e index u ''shutdown'' k) = []
           \<and> snd (sysfs_get e index u ''shutdown'' k) \<noteq> 1"
  shows "poll_shutdown e index u wait =
           (- ETIMEDOUT,
            concat (replicate (POLL_TIMEOUT - wait) [Sleep 1, SysfsGet index u ''shutdown'']))"
  using assms
proof (induction n \<equiv> "POLL_TIMEOUT - wait" arbitrary: wait)
  case 0
  then show ?case by simp
next
  case (Suc n)
  from Suc.prems have now: "fst (sysfs_get e index u ''shutdown'' wait) = []"
    "snd (sysfs_get e index u ''shutdown'' wait) \<noteq> 1"
    by auto
  show ?case
  proof (cases "wait + 1 < POLL_TIMEOUT")
    case True
    have "n = POLL_TIMEOUT - (wait + 1)"
      using Suc.hyps(2) by simp
    moreover have "\<forall>k. wait + 1 \<le> k \<and> k < POLL_TIMEOUT \<longrightarrow>
           fst (sysfs_get e index u ''shutdown'' k) = []
           \<and> snd (sysfs_get e index u ''shutdown'' k) \<noteq> 1"
      using Suc.prems(2) by auto
    ultimately have rest: "poll_shutdown e index u (wait + 1) =
           (- ETIMEDOUT,
            concat (replicate (POLL_TIMEOUT - (wait + 1))
              [Sleep 1, SysfsGet index u ''shutdown'']))"
      using Suc.hyps(1) [of "wait + 1"] True by blast
    have "POLL_TIMEOUT - wait = Suc (POLL_TIMEOUT - (wait + 1))"
      using True by simp
    with now True rest show ?thesis
      by (subst poll_shutdown.simps) (simp add: Let_def)
  next
    case False
    with Suc.prems(1) have "POLL_TIMEOUT - wait = 1"
      by simp
    with now False show ?thesis
      by (subst poll_shutdown.simps) (simp add: Let_def)
  qed
qed

lemma shutdownDevice_timeout:
  assumes "attr_exists e index u ''shutdown''"
    and "sysfs_put e index u ''shutdown'' ''1'' = []"
    and "\<forall>k<POLL_TIMEOUT. fst (sysfs_get e index u ''shutdown'' k) = []
           \<and> snd (sysfs_get e index u ''shutdown'' k) \<noteq> 1"
  shows "shutdownDevice e index u =
           (- ETIMEDOUT,
            [FsExists index u ''shutdown'', SysfsPut index u ''shutdown'' ''1'']
            @ concat (replicate POLL_TIMEOUT [Sleep 1, SysfsGet index u ''shutdown'']))"
proof -
  have "poll_shutdown e index u 0 =
           (- ETIMEDOUT,
            concat (replicate (POLL_TIMEOUT - 0) [Sleep 1, SysfsGet index u ''shutdown'']))"
    using assms(3) by (intro poll_shutdown_timeout) (simp_all add: POLL_TIMEOUT_def)
  with assms(1,2) show ?thesis
    by (simp add: shutdownDevice_def)
qed

lemma opt_loop_Nil: "opt_loop e [] index isRemove isRescan = Inr (index, isRemove, isRescan)"
  by (subst opt_loop.simps) simp

lemma opt_loop_codes:
  "opt_loop e args index isRemove isRescan = Inl ret \<Longrightarrow> ret = - ENOENT \<or> ret = - EINVAL"
proof (induction e args index isRemove isRescan rule: opt_loop.induct)
  case (1 e args index isRemove isRescan)
  show ?case
  proof (cases "fst (getopt_long args)")
    case GetoptEnd
    with "1.prems" show ?thesis
      by (subst (asm) opt_loop.simps) simp
  next
    case (GetoptOffline optarg)
    show ?thesis
    proof (cases "bdf2index e optarg = UINT_MAX")
      case True
      with GetoptOffline "1.prems" show ?thesis
        by (subst (asm) opt_loop.simps) simp
    next
      case False
      with GetoptOffline "1.prems"
      have "opt_loop e (snd (getopt_long args)) (bdf2index e optarg) True isRescan = Inl ret"
        by (subst (asm) opt_loop.simps) simp
      with GetoptOffline False show ?thesis
        using "1.IH"(1) by blast
    qed
  next
    case GetoptOnline
    with "1.prems"
    have "opt_loop e (snd (getopt_long args)) index isRemove True = Inl ret"
      by (subst (asm) opt_loop.simps) simp
    with GetoptOnline show ?thesis
      using "1.IH"(2) by blast
  next
    case GetoptUnknown
    with "1.prems" show ?thesis
      by (subst (asm) opt_loop.simps) simp
  qed
qed

text \<open>An invocation that passes the privilege check, the option loop and the prompt.\<close>

lemma hotplugHandler_steps:
  assumes "sudo_ok e"
    and "opt_loop e (tl argv) UINT_MAX False False = Inr (index, isRemove, isRescan)"
    and "isRemove \<or> isRescan"
    and "canProceed e"
  shows "hotplugHandler e argv = Some (hotplug_steps e index isRemove isRescan)"
proof -
  have "tl argv \<noteq> []"
    using assms(2,3) by (auto simp: opt_loop_Nil)
  then have "\<not> length argv < 2"
    by (cases argv) auto
  with assms show ?thesis
    by (simp add: hotplugHandler_def)
qed

subsection \<open>The shutdown controller and the offline path\<close>

text \<open>
  C7. When the \<^verbatim>\<open>shutdown\<close> attribute exists, the write of \<^verbatim>\<open>1\<close> succeeds and the
  first status read succeeds with the value 1, \<^verbatim>\<open>shutdownDevice\<close> returns 0 after
  the existence test, exactly one attribute write, one sleep and one status read, and
  nothing more.
\<close>

theorem shutdown_done_on_first_poll:
  assumes "attr_exists e index u ''shutdown''"
    and "sysfs_put e index u ''shutdown'' ''1'' = []"
    and "sysfs_get e index u ''shutdown'' 0 = ([], 1)"
  shows "shutdownDevice e index u =
           (0, [FsExists index u ''shutdown'', SysfsPut index u ''shutdown'' ''1'',
                Sleep 1, SysfsGet index u ''shutdown''])"
proof -
  have "poll_shutdown e index u 0 = (0, [Sleep 1, SysfsGet index u ''shutdown''])"
    using assms(3) by (subst poll_shutdown.simps) (simp add: Let_def)
  with assms(1,2) show ?thesis
    by (simp add: shutdownDevice_def)
qed

theorem shutdown_done_on_first_poll_witness:
  "attr_exists host_env 0 True ''shutdown''
   \<and> sysfs_put host_env 0 True ''shutdown'' ''1'' = []
   \<and> sysfs_get host_env 0 True ''shutdown'' 0 = ([], 1)
   \<and> shutdownDevice host_env 0 True =
       (0, [FsExists 0 True ''shutdown'', SysfsPut 0 True ''shutdown'' ''1'',
            Sleep 1, SysfsGet 0 True ''shutdown''])"
  using shutdown_done_on_first_poll [of host_env 0 True]
  by (simp add: host_env_def)

text \<open>
  C3. In an invocation that requests the offline path for a device whose
  \<^verbatim>\<open>shutdown\<close> attribute exists and accepts the write, and whose status reads in all
  60 poll iterations succeed with a value other than 1, \<^verbatim>\<open>shutdownDevice\<close> returns
  \<^verbatim>\<open>-ETIMEDOUT\<close> after 60 sleep-and-read rounds, the handler performs the operations
  of the shutdown and no others, and no write to a \<^verbatim>\<open>remove\<close> attribute is among
  them.
\<close>

theorem shutdown_timeout_skips_remove:
  assumes "sudo_ok e"
    and "opt_loop e (tl argv) UINT_MAX False False = Inr (index, True, isRescan)"
    and "canProceed e"
    and "attr_exists e index True ''shutdown''"
    and "sysfs_put e index True ''shutdown'' ''1'' = []"
    and "\<forall>k<POLL_TIMEOUT. fst (sysfs_get e index True ''shutdown'' k) = []
           \<and> snd (sysfs_get e index True ''shutdown'' k) \<noteq> 1"
  shows "shutdownDevice e index True =
           (- ETIMEDOUT,
            [FsExists index True ''shutdown'', SysfsPut index True ''shutdown'' ''1'']
            @ concat (replicate 60 [Sleep 1, SysfsGet index True ''shutdown'']))
         \<and> map_option snd (hotplugHandler e argv) = Some (snd (shutdownDevice e index True))
         \<and> filter is_remove (snd (shutdownDevice e index True)) = []"
proof -
  have sd: "shutdownDevice e index True =
           (- ETIMEDOUT,
            [FsExists index True ''shutdown'', SysfsPut index True ''shutdown'' ''1'']
            @ concat (replicate POLL_TIMEOUT [Sleep 1, SysfsGet index True ''shutdown'']))"
    using assms(4-6) by (rule shutdownDevice_timeout)
  have "hotplugHandler e argv = Some (hotplug_steps e index True isRescan)"
    using assms(1-3) by (intro hotplugHandler_steps) simp_all
  then have "map_option snd (hotplugHandler e argv) = Some (snd (shutdownDevice e index True))"
    by (simp add: hotplug_steps_def sd errno_defs)
  moreover have "filter is_remove (snd (shutdownDevice e index True)) = []"
    by (rule shutdownDevice_no_remove)
  ultimately show ?thesis
    using sd by (simp add: POLL_TIMEOUT_def)
qed

theorem shutdown_timeout_skips_remove_witness:
  "sudo_ok stuck_env
   \<and> opt_loop stuck_env (tl offline_args) UINT_MAX False False = Inr (0, True, False)
   \<and> canProceed stuck_env
   \<and> attr_exists stuck_env 0 True ''shutdown''
   \<and> sysfs_put stuck_env 0 True ''shutdown'' ''1'' = []
   \<and> list_all (\<lambda>k. sysfs_get stuck_env 0 True ''shutdown'' k = ([], 0)) [0 ..< POLL_TIMEOUT]
   \<and> fst (shutdownDevice stuck_env 0 True) = - ETIMEDOUT
   \<and> map_option snd (hotplugHandler stuck_env offline_args)
       = Some (snd (shutdownDevice stuck_env 0 True))
   \<and> filter is_remove (snd (shutdownDevice stuck_env 0 True)) = []"
proof -
  have args: "opt_loop stuck_env (tl offline_args) UINT_MAX False False = Inr (0, True, False)"
    by (simp add: stuck_env_def host_env_def offline_args_def opt_loop.simps match_long_def
        UINT_MAX_def)
  have env: "sudo_ok stuck_env" "canProceed stuck_env" "attr_exists stuck_env 0 True ''shutdown''"
    "sysfs_put stuck_env 0 True ''shutdown'' ''1'' = []"
    by (simp_all add: stuck_env_def host_env_def)
  have reads: "\<forall>k<POLL_TIMEOUT. fst (sysfs_get stuck_env 0 True ''shutdown'' k) = []
           \<and> snd (sysfs_get stuck_env 0 True ''shutdown'' k) \<noteq> 1"
    by (simp add: stuck_env_def host_env_def)
  have all: "list_all (\<lambda>k. sysfs_get stuck_env 0 True ''shutdown'' k = ([], 0))
      [0 ..< POLL_TIMEOUT]"
    by (simp add: stuck_env_def host_env_def list_all_iff)
  note inst = shutdown_timeout_skips_remove [OF env(1) args env(2) env(3) env(4) reads]
  from inst have ret: "fst (shutdownDevice stuck_env 0 True) = - ETIMEDOUT"
    by simp
  from inst have evs: "map_option snd (hotplugHandler stuck_env offline_args)
       = Some (snd (shutdownDevice stuck_env 0 True))"
    by blast
  from inst have quiet: "filter is_remove (snd (shutdownDevice stuck_env 0 True)) = []"
    by blast
  show ?thesis
    using args env all ret evs quiet by blast
qed

text \<open>
  C5. When the \<^verbatim>\<open>shutdown\<close> attribute of the user function does not exist,
  \<^verbatim>\<open>shutdownDevice\<close> returns \<^verbatim>\<open>-ENOENT\<close> after the existence test alone, and an
  invocation that requests the offline path for that device returns 0 having performed
  nothing but that test: no write to a \<^verbatim>\<open>remove\<close> attribute takes place.
\<close>

theorem absent_shutdown_attribute_is_success:
  assumes "sudo_ok e"
    and "opt_loop e (tl argv) UINT_MAX False False = Inr (index, True, isRescan)"
    and "canProceed e"
    and "\<not> attr_exists e index True ''shutdown''"
  shows "shutdownDevice e index True = (- ENOENT, [FsExists index True ''shutdown''])
         \<and> hotplugHandler e argv = Some (0, [FsExists index True ''shutdown''])
         \<and> filter is_remove [FsExists index True ''shutdown''] = []"
proof -
  have sd: "shutdownDevice e index True = (- ENOENT, [FsExists index True ''shutdown''])"
    using assms(4) by (simp add: shutdownDevice_def)
  have "hotplugHandler e argv = Some (hotplug_steps e index True isRescan)"
    using assms(1-3) by (intro hotplugHandler_steps) simp_all
  then have "hotplugHandler e argv = Some (0, [FsExists index True ''shutdown''])"
    by (simp add: hotplug_steps_def sd errno_defs)
  with sd show ?thesis
    by simp
qed

theorem absent_shutdown_attribute_is_success_witness:
  "sudo_ok absent_env
   \<and> opt_loop absent_env (tl offline_args) UINT_MAX False False = Inr (0, True, False)
   \<and> canProceed absent_env
   \<and> \<not> attr_exists absent_env 0 True ''shutdown''
   \<and> shutdownDevice absent_env 0 True = (- ENOENT, [FsExists 0 True ''shutdown''])
   \<and> hotplugHandler absent_env offline_args = Some (0, [FsExists 0 True ''shutdown''])"
proof -
  have args: "opt_loop absent_env (tl offline_args) UINT_MAX False False = Inr (0, True, False)"
    by (simp add: absent_env_def host_env_def offline_args_def opt_loop.simps match_long_def
        UINT_MAX_def)
  have env: "sudo_ok absent_env" "canProceed absent_env"
    "\<not> attr_exists absent_env 0 True ''shutdown''"
    by (simp_all add: absent_env_def host_env_def)
  show ?thesis
    using absent_shutdown_attribute_is_success [OF env(1) args env(2) env(3)] args env
    by simp
qed

text \<open>
  C6. In an invocation of the offline path whose shutdown returned 0, the writes to
  \<^verbatim>\<open>remove\<close> attributes are, in this order, the one for the user function and then
  the one for the management function; when \<^verbatim>\<open>removeDevice\<close> fails for the user
  function, its write is the last operation of the invocation, no write for the
  management function follows, and the handler returns the code of that
  \<^verbatim>\<open>removeDevice\<close> call.
\<close>

theorem remove_user_before_management:
  assumes "sudo_ok e"
    and "opt_loop e (tl argv) UINT_MAX False False = Inr (index, True, isRescan)"
    and "canProceed e"
    and "fst (shutdownDevice e index True) = 0"
  shows "map_option (filter is_remove \<circ> snd) (hotplugHandler e argv) =
           Some (if fst (removeDevice e index True) \<noteq> 0
                 then [SysfsPut index True ''remove'' ''1'']
                 else [SysfsPut index True ''remove'' ''1'',
                       SysfsPut index False ''remove'' ''1''])
         \<and> (fst (removeDevice e index True) \<noteq> 0 \<longrightarrow>
              hotplugHandler e argv =
                Some (fst (removeDevice e index True),
                      snd (shutdownDevice e index True) @ [SysfsPut index True ''remove'' ''1'']))"
proof -
  obtain evs1 where sd: "shutdownDevice e index True = (0, evs1)"
    using assms(4) by (cases "shutdownDevice e index True") auto
  have quiet1: "filter is_remove evs1 = []"
    using shutdownDevice_no_remove [of e index True] sd by simp
  obtain ret4 evs4 where rescan: "hotplugRescan e = (ret4, evs4)"
    by (cases "hotplugRescan e") auto
  have quiet4: "filter is_remove evs4 = []"
    using hotplugRescan_no_remove [of e] rescan by simp
  have handler: "hotplugHandler e argv = Some (hotplug_steps e index True isRescan)"
    using assms(1-3) by (intro hotplugHandler_steps) simp_all
  show ?thesis
    by (simp add: handler hotplug_steps_def sd removeDevice_def online_step_def rescan
        quiet1 quiet4 errno_defs)
qed

theorem remove_user_before_management_witness:
  "sudo_ok remove_fails_env
   \<and> opt_loop remove_fails_env (tl offline_online_args) UINT_MAX False False
       = Inr (0, True, True)
   \<and> canProceed remove_fails_env
   \<and> fst (shutdownDevice remove_fails_env 0 True) = 0
   \<and> fst (removeDevice remove_fails_env 0 True) = - EINVAL
   \<and> hotplugHandler remove_fails_env offline_online_args =
       Some (- EINVAL,
             snd (shutdownDevice remove_fails_env 0 True) @ [SysfsPut 0 True ''remove'' ''1''])
   \<and> map_option (filter is_remove \<circ> snd) (hotplugHandler remove_fails_env offline_online_args)
       = Some [SysfsPut 0 True ''remove'' ''1'']"
proof -
  have args: "opt_loop remove_fails_env (tl offline_online_args) UINT_MAX False False
       = Inr (0, True, True)"
    by (simp add: remove_fails_env_def host_env_def offline_online_args_def opt_loop.simps
        match_long_def UINT_MAX_def)
  have env: "sudo_ok remove_fails_env" "canProceed remove_fails_env"
    by (simp_all add: remove_fails_env_def host_env_def)
  have "shutdownDevice remove_fails_env 0 True =
           (0, [FsExists 0 True ''shutdown'', SysfsPut 0 True ''shutdown'' ''1'',
                Sleep 1, SysfsGet 0 True ''shutdown''])"
    by (subst shutdownDevice_def, subst poll_shutdown.simps)
      (simp add: remove_fails_env_def host_env_def Let_def)
  then have sd: "fst (shutdownDevice remove_fails_env 0 True) = 0"
    by simp
  have rm: "fst (removeDevice remove_fails_env 0 True) = - EINVAL"
    by (simp add: removeDevice_def remove_fails_env_def host_env_def)
  note inst = remove_user_before_management [OF env(1) args env(2) sd]
  have failed: "fst (removeDevice remove_fails_env 0 True) \<noteq> 0"
    using rm by (simp add: errno_defs)
  from inst failed have ret: "hotplugHandler remove_fails_env offline_online_args =
       Some (fst (removeDevice remove_fails_env 0 True),
             snd (shutdownDevice remove_fails_env 0 True) @ [SysfsPut 0 True ''remove'' ''1''])"
    by blast
  from inst have "map_option (filter is_remove \<circ> snd)
        (hotplugHandler remove_fails_env offline_online_args) =
           Some (if fst (removeDevice remove_fails_env 0 True) \<noteq> 0
                 then [SysfsPut 0 True ''remove'' ''1'']
                 else [SysfsPut 0 True ''remove'' ''1'', SysfsPut 0 False ''remove'' ''1''])"
    by blast
  with failed have removes: "map_option (filter is_remove \<circ> snd)
        (hotplugHandler remove_fails_env offline_online_args)
       = Some [SysfsPut 0 True ''remove'' ''1'']"
    by (simp only: if_True simp_thms)
  show ?thesis
    using args env sd rm ret [unfolded rm] removes by blast
qed

text \<open>
  C4 (as stated, refuted). On a host whose device never reports the shutdown as done,
  an invocation with both switches has its shutdown return \<^verbatim>\<open>-ETIMEDOUT\<close>, and the
  handler returns \<^verbatim>\<open>-EINVAL\<close>, not the timed-out code.
\<close>

theorem timeout_code_not_surfaced:
  "fst (shutdownDevice stuck_env 0 True) = - ETIMEDOUT
   \<and> map_option fst (hotplugHandler stuck_env offline_online_args) = Some (- EINVAL)
   \<and> map_option fst (hotplugHandler stuck_env offline_online_args) \<noteq> Some (- ETIMEDOUT)"
proof -
  have sd: "shutdownDevice stuck_env 0 True =
           (- ETIMEDOUT,
            [FsExists 0 True ''shutdown'', SysfsPut 0 True ''shutdown'' ''1'']
            @ concat (replicate POLL_TIMEOUT [Sleep 1, SysfsGet 0 True ''shutdown'']))"
    by (rule shutdownDevice_timeout) (simp_all add: stuck_env_def host_env_def)
  have args: "opt_loop stuck_env (tl offline_online_args) UINT_MAX False False
       = Inr (0, True, True)"
    by (simp add: stuck_env_def host_env_def offline_online_args_def opt_loop.simps
        match_long_def UINT_MAX_def)
  have "hotplugHandler stuck_env offline_online_args = Some (hotplug_steps stuck_env 0 True True)"
    using args by (intro hotplugHandler_steps) (simp_all add: stuck_env_def host_env_def)
  then have "map_option fst (hotplugHandler stuck_env offline_online_args) = Some (- EINVAL)"
    by (simp add: hotplug_steps_def sd errno_defs)
  with sd show ?thesis
    by (auto simp: errno_defs)
qed

text \<open>
  C4 (amended). Every code the handler returns is 0, \<^verbatim>\<open>-EINVAL\<close>, \<^verbatim>\<open>-ENOENT\<close>,
  \<^verbatim>\<open>-ECANCELED\<close>, or the negated \<^verbatim>\<open>errno\<close> of a failed open or write of the rescan
  attribute. The timed-out code is the result of \<^verbatim>\<open>shutdownDevice\<close> only: in an
  invocation whose offline shutdown uses up all 60 poll iterations,
  \<^verbatim>\<open>shutdownDevice\<close> returns \<^verbatim>\<open>-ETIMEDOUT\<close> and the handler returns \<^verbatim>\<open>-EINVAL\<close>.
\<close>

theorem handler_result_codes:
  assumes "hotplugHandler e argv = Some (ret, evs)"
  shows "(ret = 0 \<or> ret = - EINVAL \<or> ret = - ENOENT \<or> ret = - ECANCELED
          \<or> (\<exists>errno. ret = - errno
                \<and> (ofile_open e (path_append (findXilinxRootPort (tree e)) ''rescan'')
                      = Some errno
                    \<or> ofile_write e (path_append (findXilinxRootPort (tree e)) ''rescan'')
                      = Some errno)))
         \<and> (opt_loop e (tl argv) UINT_MAX False False = Inr (index, True, isRescan)
              \<and> canProceed e
              \<and> attr_exists e index True ''shutdown''
              \<and> sysfs_put e index True ''shutdown'' ''1'' = []
              \<and> (\<forall>k<POLL_TIMEOUT. fst (sysfs_get e index True ''shutdown'' k) = []
                    \<and> snd (sysfs_get e index True ''shutdown'' k) \<noteq> 1)
             \<longrightarrow> fst (shutdownDevice e index True) = - ETIMEDOUT \<and> ret = - EINVAL)"
proof (intro conjI impI)
  let ?p = "path_append (findXilinxRootPort (tree e)) ''rescan''"
  let ?ok = "\<lambda>r. r = 0 \<or> r = - EINVAL \<or> r = - ENOENT \<or> r = - ECANCELED
          \<or> (\<exists>errno. r = - errno
                \<and> (ofile_open e ?p = Some errno \<or> ofile_write e ?p = Some errno))"
  have rescan: "?ok (fst (hotplugRescan e))"
    by (auto simp: hotplugRescan_def Let_def split: option.splits)
  have online: "?ok (fst (online_step e r 0 pre))" for r pre
    using rescan by (cases "hotplugRescan e") (auto simp: online_step_def)
  have steps: "?ok (fst (hotplug_steps e i isRemove r))" for i isRemove r
  proof (cases isRemove)
    case False
    then show ?thesis
      using online [of r "[]"] by (simp add: hotplug_steps_def)
  next
    case True
    obtain r1 evs1 where sd: "shutdownDevice e i True = (r1, evs1)"
      by (cases "shutdownDevice e i True") auto
    show ?thesis
    proof (cases "r1 = 0 \<and> sysfs_put e i True ''remove'' ''1'' = []
        \<and> sysfs_put e i False ''remove'' ''1'' = []")
      case False
      with True sd show ?thesis
        by (auto simp: hotplug_steps_def removeDevice_def errno_defs)
    next
      case all_done: True
      with True sd have "hotplug_steps e i isRemove r =
          online_step e r 0 (evs1 @ [SysfsPut i True ''remove'' ''1'']
            @ [SysfsPut i False ''remove'' ''1''])"
        by (simp add: hotplug_steps_def removeDevice_def)
      then show ?thesis
        using online by simp
    qed
  qed
  show "?ok ret"
  proof (cases "opt_loop e (tl argv) UINT_MAX False False")
    case (Inl r)
    then have "r = - ENOENT \<or> r = - EINVAL"
      by (rule opt_loop_codes)
    with assms Inl show ?thesis
      by (auto simp: hotplugHandler_def split: if_splits)
  next
    case (Inr parsed)
    obtain i isRemove r where parsed: "parsed = (i, isRemove, r)"
      by (cases parsed) auto
    show ?thesis
    proof (cases "sudo_ok e \<and> \<not> length argv < 2 \<and> canProceed e")
      case True
      with assms Inr parsed have "ret = fst (hotplug_steps e i isRemove r)"
        by (auto simp: hotplugHandler_def)
      then show ?thesis
        using steps by simp
    next
      case False
      with assms Inr parsed show ?thesis
        by (auto simp: hotplugHandler_def split: if_splits)
    qed
  qed
next
  assume run: "opt_loop e (tl argv) UINT_MAX False False = Inr (index, True, isRescan)
      \<and> canProceed e
      \<and> attr_exists e index True ''shutdown''
      \<and> sysfs_put e index True ''shutdown'' ''1'' = []
      \<and> (\<forall>k<POLL_TIMEOUT. fst (sysfs_get e index True ''shutdown'' k) = []
            \<and> snd (sysfs_get e index True ''shutdown'' k) \<noteq> 1)"
  then have sd: "shutdownDevice e index True =
           (- ETIMEDOUT,
            [FsExists index True ''shutdown'', SysfsPut index True ''shutdown'' ''1'']
            @ concat (replicate POLL_TIMEOUT [Sleep 1, SysfsGet index True ''shutdown'']))"
    by (intro shutdownDevice_timeout) simp_all
  then show "fst (shutdownDevice e index True) = - ETIMEDOUT"
    by simp
  have "sudo_ok e"
    using assms by (auto simp: hotplugHandler_def split: if_splits)
  with run have "hotplugHandler e argv = Some (hotplug_steps e index True isRescan)"
    by (intro hotplugHandler_steps) simp_all
  with assms have "ret = fst (hotplug_steps e index True isRescan)"
    by simp
  then show "ret = - EINVAL"
    by (simp add: hotplug_steps_def sd errno_defs)
qed

theorem handler_result_codes_witness:
  "hotplugHandler stuck_env [''hotplug'', ''--offline=0000:01:00.0'']
     = Some (- EINVAL, snd (shutdownDevice stuck_env 0 True))
   \<and> opt_loop stuck_env (tl [''hotplug'', ''--offline=0000:01:00.0'']) UINT_MAX False False
       = Inr (0, True, False)
   \<and> canProceed stuck_env
   \<and> attr_exists stuck_env 0 True ''shutdown''
   \<and> sysfs_put stuck_env 0 True ''shutdown'' ''1'' = []
   \<and> list_all (\<lambda>k. sysfs_get stuck_env 0 True ''shutdown'' k = ([], 0)) [0 ..< POLL_TIMEOUT]
   \<and> fst (shutdownDevice stuck_env 0 True) = - ETIMEDOUT"
proof -
  let ?argv = "[''hotplug'', ''--offline=0000:01:00.0'']"
  have args: "opt_loop stuck_env (tl ?argv) UINT_MAX False False = Inr (0, True, False)"
    by (simp add: stuck_env_def host_env_def opt_loop.simps match_long_def UINT_MAX_def)
  have env: "sudo_ok stuck_env" "canProceed stuck_env" "attr_exists stuck_env 0 True ''shutdown''"
    "sysfs_put stuck_env 0 True ''shutdown'' ''1'' = []"
    by (simp_all add: stuck_env_def host_env_def)
  have reads: "\<forall>k<POLL_TIMEOUT. fst (sysfs_get stuck_env 0 True ''shutdown'' k) = []
           \<and> snd (sysfs_get stuck_env 0 True ''shutdown'' k) \<noteq> 1"
    by (simp add: stuck_env_def host_env_def)
  have all: "list_all (\<lambda>k. sysfs_get stuck_env 0 True ''shutdown'' k = ([], 0))
      [0 ..< POLL_TIMEOUT]"
    by (simp add: stuck_env_def host_env_def list_all_iff)
  have sd: "shutdownDevice stuck_env 0 True =
           (- ETIMEDOUT,
            [FsExists 0 True ''shutdown'', SysfsPut 0 True ''shutdown'' ''1'']
            @ concat (replicate POLL_TIMEOUT [Sleep 1, SysfsGet 0 True ''shutdown'']))"
    using env(3,4) reads by (rule shutdownDevice_timeout)
  have "hotplugHandler stuck_env ?argv = Some (hotplug_steps stuck_env 0 True False)"
    using env(1) args _ env(2) by (rule hotplugHandler_steps) simp
  then have run: "hotplugHandler stuck_env ?argv
      = Some (- EINVAL, snd (shutdownDevice stuck_env 0 True))"
    by (simp add: hotplug_steps_def sd errno_defs)
  note inst = handler_result_codes [OF run, of 0 False]
  from inst args env reads have "fst (shutdownDevice stuck_env 0 True) = - ETIMEDOUT"
    by blast
  with run args env all show ?thesis
    by blast
qed

subsection \<open>The order of the two paths\<close>

lemma offline_then_online_append:
  assumes "filter is_online pre = []" and "list_all is_online post"
  shows "offline_then_online (pre @ post)"
proof -
  have "dropWhile (\<lambda>ev. \<not> is_online ev) (pre @ post) = dropWhile (\<lambda>ev. \<not> is_online ev) post"
    using assms(1) by (intro dropWhile_append2) (simp add: filter_empty_conv)
  moreover have "list_all is_online (dropWhile (\<lambda>ev. \<not> is_online ev) post)"
    using assms(2) by (auto simp: list_all_iff dest: set_dropWhileD)
  ultimately show ?thesis
    by (simp add: offline_then_online_def)
qed

lemma findXilinxRootPort_card_tree:
  "findXilinxRootPort card_tree = ''/sys/bus/pci/devices/0000:00:01.0''"
  by (simp add: findXilinxRootPort_def card_tree_def isspace_def XILINX_VENDOR_def
      XILINX_US_def SYSFS_PATH_def path_append_def is_separator_def)

text \<open>
  C9 (as stated, refuted). With both switches and a device whose \<^verbatim>\<open>shutdown\<close>
  attribute is absent, the offline path ends in overall success (not-found treated as
  success), and the invocation returns 0 after the existence test alone: neither the
  directory walk nor any operation on a rescan attribute takes place.
\<close>

theorem notfound_shutdown_skips_online:
  "opt_loop absent_env (tl offline_online_args) UINT_MAX False False = Inr (0, True, True)
   \<and> hotplugHandler absent_env offline_online_args = Some (0, [FsExists 0 True ''shutdown''])"
proof -
  have args: "opt_loop absent_env (tl offline_online_args) UINT_MAX False False
       = Inr (0, True, True)"
    by (simp add: absent_env_def host_env_def offline_online_args_def opt_loop.simps
        match_long_def UINT_MAX_def)
  have "hotplugHandler absent_env offline_online_args
      = Some (hotplug_steps absent_env 0 True True)"
    using args by (intro hotplugHandler_steps) (simp_all add: absent_env_def host_env_def)
  then have "hotplugHandler absent_env offline_online_args
      = Some (0, [FsExists 0 True ''shutdown''])"
    by (simp add: hotplug_steps_def shutdownDevice_def absent_env_def host_env_def errno_defs)
  with args show ?thesis
    by simp
qed

text \<open>
  C9 (amended). In an invocation with both switches, no operation of the offline path
  comes after an operation of the online path. When the shutdown and both removes
  return 0, the operations of \<^verbatim>\<open>hotplugRescan\<close> (the directory walk first) follow
  those of the offline path and the handler returns the result of \<^verbatim>\<open>hotplugRescan\<close>.
  When the shutdown returns \<^verbatim>\<open>-ENOENT\<close>, the handler returns 0 at once and performs
  the operations of the shutdown only, none of which belongs to the online path.
\<close>

theorem offline_runs_before_online:
  assumes "sudo_ok e"
    and "opt_loop e (tl argv) UINT_MAX False False = Inr (index, True, True)"
    and "canProceed e"
  shows "(\<exists>ret evs. hotplugHandler e argv = Some (ret, evs) \<and> offline_then_online evs)
         \<and> (fst (shutdownDevice e index True) = 0 \<and> fst (removeDevice e index True) = 0
              \<and> fst (removeDevice e index False) = 0 \<longrightarrow>
              hotplugHandler e argv =
                Some (fst (hotplugRescan e),
                      snd (shutdownDevice e index True)
                      @ [SysfsPut index True ''remove'' ''1'',
                         SysfsPut index False ''remove'' ''1'']
                      @ snd (hotplugRescan e)))
         \<and> (fst (shutdownDevice e index True) = - ENOENT \<longrightarrow>
              hotplugHandler e argv = Some (0, snd (shutdownDevice e index True)))
         \<and> filter is_online (snd (shutdownDevice e index True)) = []"
proof -
  obtain r1 evs1 where sd: "shutdownDevice e index True = (r1, evs1)"
    by (cases "shutdownDevice e index True") auto
  have off1: "filter is_online evs1 = []"
    using shutdownDevice_offline [of e index True] sd by simp
  obtain r4 evs4 where rescan: "hotplugRescan e = (r4, evs4)"
    by (cases "hotplugRescan e") auto
  have on4: "list_all is_online evs4"
    using hotplugRescan_online [of e] rescan by simp
  have handler: "hotplugHandler e argv = Some (hotplug_steps e index True True)"
    using assms by (intro hotplugHandler_steps) simp_all
  let ?rm = "[SysfsPut index True ''remove'' ''1'', SysfsPut index False ''remove'' ''1'']"
  have ordered: "offline_then_online (snd (hotplug_steps e index True True))"
  proof (cases "r1 = 0 \<and> sysfs_put e index True ''remove'' ''1'' = []
      \<and> sysfs_put e index False ''remove'' ''1'' = []")
    case True
    then have "snd (hotplug_steps e index True True) = (evs1 @ ?rm) @ evs4"
      by (simp add: hotplug_steps_def sd removeDevice_def online_step_def rescan)
    moreover have "offline_then_online ((evs1 @ ?rm) @ evs4)"
      using off1 on4 by (intro offline_then_online_append) simp_all
    ultimately show ?thesis
      by simp
  next
    case False
    then have "\<exists>pre. snd (hotplug_steps e index True True) = pre @ []
        \<and> filter is_online pre = []"
      using off1 by (auto simp: hotplug_steps_def sd removeDevice_def errno_defs)
    then obtain pre where "snd (hotplug_steps e index True True) = pre @ []"
      "filter is_online pre = []"
      by blast
    then show ?thesis
      using offline_then_online_append [of pre "[]"] by simp
  qed
  have first: "\<exists>ret evs. hotplugHandler e argv = Some (ret, evs) \<and> offline_then_online evs"
    using handler ordered by (cases "hotplug_steps e index True True") auto
  have second: "fst (shutdownDevice e index True) = 0 \<and> fst (removeDevice e index True) = 0
              \<and> fst (removeDevice e index False) = 0 \<longrightarrow>
              hotplugHandler e argv =
                Some (fst (hotplugRescan e),
                      snd (shutdownDevice e index True) @ ?rm @ snd (hotplugRescan e))"
    by (simp add: handler hotplug_steps_def sd removeDevice_def online_step_def rescan
        errno_defs)
  have third: "fst (shutdownDevice e index True) = - ENOENT \<longrightarrow>
              hotplugHandler e argv = Some (0, snd (shutdownDevice e index True))"
    by (simp add: handler hotplug_steps_def sd errno_defs)
  from first second third off1 sd show ?thesis
    by simp
qed

theorem offline_runs_before_online_witness:
  "sudo_ok host_env
   \<and> opt_loop host_env (tl offline_online_args) UINT_MAX False False = Inr (0, True, True)
   \<and> canProceed host_env
   \<and> fst (shutdownDevice host_env 0 True) = 0
   \<and> fst (removeDevice host_env 0 True) = 0
   \<and> fst (removeDevice host_env 0 False) = 0
   \<and> hotplugHandler host_env offline_online_args =
       Some (0, [FsExists 0 True ''shutdown'', SysfsPut 0 True ''shutdown'' ''1'',
                 Sleep 1, SysfsGet 0 True ''shutdown'',
                 SysfsPut 0 True ''remove'' ''1'', SysfsPut 0 False ''remove'' ''1'',
                 ScanBus, OfOpen ''/sys/bus/pci/devices/0000:00:01.0/rescan'',
                 OfWrite ''/sys/bus/pci/devices/0000:00:01.0/rescan'' ''1'',
                 OfClose ''/sys/bus/pci/devices/0000:00:01.0/rescan''])
   \<and> fst (shutdownDevice absent_env 0 True) = - ENOENT
   \<and> hotplugHandler absent_env offline_online_args
       = Some (0, snd (shutdownDevice absent_env 0 True))"
proof -
  have args: "opt_loop host_env (tl offline_online_args) UINT_MAX False False
       = Inr (0, True, True)"
    by (simp add: host_env_def offline_online_args_def opt_loop.simps match_long_def
        UINT_MAX_def)
  have env: "sudo_ok host_env" "canProceed host_env"
    by (simp_all add: host_env_def)
  have sd: "shutdownDevice host_env 0 True =
       (0, [FsExists 0 True ''shutdown'', SysfsPut 0 True ''shutdown'' ''1'',
            Sleep 1, SysfsGet 0 True ''shutdown''])"
    by (subst shutdownDevice_def, subst poll_shutdown.simps) (simp add: host_env_def Let_def)
  have rm: "fst (removeDevice host_env 0 True) = 0" "fst (removeDevice host_env 0 False) = 0"
    by (simp_all add: removeDevice_def host_env_def)
  have "tree host_env = card_tree" "ofile_open host_env = (\<lambda>p. None)"
    "ofile_write host_env = (\<lambda>p. None)"
    by (simp_all add: host_env_def)
  then have rescan: "hotplugRescan host_env =
       (0, [ScanBus, OfOpen ''/sys/bus/pci/devices/0000:00:01.0/rescan'',
            OfWrite ''/sys/bus/pci/devices/0000:00:01.0/rescan'' ''1'',
            OfClose ''/sys/bus/pci/devices/0000:00:01.0/rescan''])"
    by (simp add: hotplugRescan_def findXilinxRootPort_card_tree path_append_def
        is_separator_def Let_def)
  note inst = offline_runs_before_online [OF env(1) args env(2)]
  from inst sd rm have "hotplugHandler host_env offline_online_args =
                Some (fst (hotplugRescan host_env),
                      snd (shutdownDevice host_env 0 True)
                      @ [SysfsPut 0 True ''remove'' ''1'', SysfsPut 0 False ''remove'' ''1'']
                      @ snd (hotplugRescan host_env))"
    by simp
  then have "hotplugHandler host_env offline_online_args =
       Some (0, [FsExists 0 True ''shutdown'', SysfsPut 0 True ''shutdown'' ''1'',
                 Sleep 1, SysfsGet 0 True ''shutdown'',
                 SysfsPut 0 True ''remove'' ''1'', SysfsPut 0 False ''remove'' ''1'',
                 ScanBus, OfOpen ''/sys/bus/pci/devices/0000:00:01.0/rescan'',
                 OfWrite ''/sys/bus/pci/devices/0000:00:01.0/rescan'' ''1'',
                 OfClose ''/sys/bus/pci/devices/0000:00:01.0/rescan''])"
    by (simp add: sd rescan)
  with args env sd rm have present: "sudo_ok host_env
   \<and> opt_loop host_env (tl offline_online_args) UINT_MAX False False = Inr (0, True, True)
   \<and> canProceed host_env
   \<and> fst (shutdownDevice host_env 0 True) = 0
   \<and> fst (removeDevice host_env 0 True) = 0
   \<and> fst (removeDevice host_env 0 False) = 0
   \<and> hotplugHandler host_env offline_online_args =
       Some (0, [FsExists 0 True ''shutdown'', SysfsPut 0 True ''shutdown'' ''1'',
                 Sleep 1, SysfsGet 0 True ''shutdown'',
                 SysfsPut 0 True ''remove'' ''1'', SysfsPut 0 False ''remove'' ''1'',
                 ScanBus, OfOpen ''/sys/bus/pci/devices/0000:00:01.0/rescan'',
                 OfWrite ''/sys/bus/pci/devices/0000:00:01.0/rescan'' ''1'',
                 OfClose ''/sys/bus/pci/devices/0000:00:01.0/rescan''])"
    by simp
  have args': "opt_loop absent_env (tl offline_online_args) UINT_MAX False False
       = Inr (0, True, True)"
    by (simp add: absent_env_def host_env_def offline_online_args_def opt_loop.simps
        match_long_def UINT_MAX_def)
  have env': "sudo_ok absent_env" "canProceed absent_env"
    by (simp_all add: absent_env_def host_env_def)
  have gone: "fst (shutdownDevice absent_env 0 True) = - ENOENT"
    by (simp add: shutdownDevice_def absent_env_def host_env_def)
  note inst' = offline_runs_before_online [OF env'(1) args' env'(2)]
  from inst' gone have "hotplugHandler absent_env offline_online_args
       = Some (0, snd (shutdownDevice absent_env 0 True))"
    by blast
  with present gone show ?thesis
    by blast
qed

subsection \<open>The rescan controller and the root-port search\<close>

text \<open>
  C1 (the source departs from it). The claim: when the root-port search returns the
  empty path, the rescan fails with not-found and opens nothing. The source appends
  \<^verbatim>\<open>rescan\<close> to the path before it tests the path for emptiness, so the test never
  holds: on a host with an empty device tree the search returns the empty path, and
  \<^verbatim>\<open>hotplugRescan\<close> opens the relative path \<^verbatim>\<open>rescan\<close> for writing, writes \<^verbatim>\<open>1\<close>
  to it and returns 0.
\<close>

theorem rescan_without_root_port_opens_relative_path:
  "findXilinxRootPort (tree empty_bus_env) = []
   \<and> hotplugRescan empty_bus_env =
       (0, [ScanBus, OfOpen ''rescan'', OfWrite ''rescan'' ''1'', OfClose ''rescan''])"
  by (simp add: hotplugRescan_def empty_bus_env_def host_env_def findXilinxRootPort_def
      path_append_def is_separator_def Let_def)

text \<open>
  C2 (the source departs from it). The claim: a bridge is returned only if one of its
  child directories has both the known vendor and the known device identifier. The
  source keeps \<^verbatim>\<open>vendor_id\<close> and \<^verbatim>\<open>device_id\<close> across children: for a bridge whose
  first child matches on the vendor only and whose second child has no \<^verbatim>\<open>vendor\<close>
  file and matches on the device only, the vendor read from the first child is compared
  together with the device of the second, and the bridge is returned although none of
  its children carries both identifiers.
\<close>

theorem stale_vendor_pairs_with_sibling_device:
  "findXilinxRootPort split_identity_tree = ''/sys/bus/pci/devices/0000:00:01.0''
   \<and> filter child_matches (concat (map b_children split_identity_tree)) = []
   \<and> map vendor_matches (concat (map b_children split_identity_tree)) = [True, False]
   \<and> map device_matches (concat (map b_children split_identity_tree)) = [False, True]"
  by (simp add: findXilinxRootPort_def split_identity_tree_def child_matches_def
      vendor_matches_def device_matches_def isspace_def XILINX_VENDOR_def XILINX_US_def
      SYSFS_PATH_def path_append_def is_separator_def)

text \<open>
  C8 (the source departs from it). The claim: when no bridge has a child with both
  identifiers the search returns the empty path, and an attribute that cannot be read
  counts as no match. In the source a failed read leaves the variable with the value
  of an earlier child (the same defect as under C2): with the vendor of the
  accelerator read under a first bridge, a child of a second bridge whose \<^verbatim>\<open>vendor\<close>
  file cannot be opened and whose device is the accelerator's is taken as a match, and
  the second bridge is returned although no child in the tree carries both identifiers.
\<close>

theorem unreadable_vendor_taken_as_match:
  "findXilinxRootPort unreadable_vendor_tree = ''/sys/bus/pci/devices/0000:00:02.0''
   \<and> filter child_matches (concat (map b_children unreadable_vendor_tree)) = []"
  by (simp add: findXilinxRootPort_def unreadable_vendor_tree_def child_matches_def
      isspace_def XILINX_VENDOR_def XILINX_US_def SYSFS_PATH_def path_append_def
      is_separator_def)

subsection \<open>The command line\<close>

text \<open>
  C10 (the source departs from it). The claim: an invocation without a recognized
  switch is rejected as an invalid argument. The source rejects an empty argument list
  (\<^verbatim>\<open>argc < 2\<close>) and an unknown option, but an argument that is not an option passes
  both tests: for \<^verbatim>\<open>hotplug foo\<close> the first \<^verbatim>\<open>getopt_long\<close> call returns \<^verbatim>\<open>-1\<close>,
  both flags stay 0, and after the confirmation the handler returns 0, having
  performed no operation.
\<close>

theorem positional_argument_is_accepted:
  "getopt_long [''foo''] = (GetoptEnd, [])
   \<and> opt_loop host_env (tl [''hotplug'', ''foo'']) UINT_MAX False False
       = Inr (UINT_MAX, False, False)
   \<and> hotplugHandler host_env [''hotplug'', ''foo''] = Some (0, [])"
  by (simp add: hotplugHandler_def host_env_def opt_loop.simps hotplug_steps_def
      online_step_def)

subsection \<open>The root-port search on well-formed trees\<close>

text \<open>
  On a tree in which every child directory delivers both identifiers or neither, the
  search returns the path of the first top-level entry that has a matching child, and
  the empty path when there is none. (The pair kept across children is then always
  that of a single child, which did not match.)
\<close>

lemma read_attr_delivers: "delivers f \<Longrightarrow> read_attr f old = read_attr f []"
  by (cases f) (auto simp: delivers_def Let_def)

lemma read_attr_silent: "\<not> delivers f \<Longrightarrow> read_attr f old = old"
  by (cases f) (auto simp: delivers_def Let_def)

lemma scan_children_well_formed:
  assumes "list_all both_or_neither cs"
    and "\<not> (fst ids = XILINX_VENDOR \<and> snd ids = XILINX_US)"
  shows "fst (scan_children cs ids) = list_ex child_matches cs
         \<and> (\<not> fst (scan_children cs ids) \<longrightarrow>
              \<not> (fst (snd (scan_children cs ids)) = XILINX_VENDOR
                  \<and> snd (snd (scan_children cs ids)) = XILINX_US))"
  using assms
proof (induction cs arbitrary: ids)
  case Nil
  then show ?case by simp
next
  case (Cons c cs)
  obtain v d where ids: "ids = (v, d)"
    by (cases ids) auto
  have rest: "list_all both_or_neither cs"
    using Cons.prems(1) by simp
  show ?case
  proof (cases "c_is_dir c")
    case False
    then have "scan_children (c # cs) ids = scan_children cs ids"
      by (simp add: ids)
    moreover have "\<not> child_matches c"
      using False by (simp add: child_matches_def)
    ultimately show ?thesis
      using Cons.IH [OF rest Cons.prems(2)] by simp
  next
    case dir: True
    show ?thesis
    proof (cases "delivers (c_vendor c)")
      case True
      then have both: "delivers (c_device c)"
        using Cons.prems(1) dir by (simp add: both_or_neither_def)
      have v': "read_attr (c_vendor c) v = read_attr (c_vendor c) []"
        using True by (rule read_attr_delivers)
      have d': "read_attr (c_device c) d = read_attr (c_device c) []"
        using both by (rule read_attr_delivers)
      show ?thesis
      proof (cases "child_matches c")
        case True
        then show ?thesis
          using dir by (simp add: ids v' d' child_matches_def)
      next
        case False
        then have no: "\<not> (read_attr (c_vendor c) [] = XILINX_VENDOR
            \<and> read_attr (c_device c) [] = XILINX_US)"
          using dir by (simp add: child_matches_def)
        then have "scan_children (c # cs) ids =
            scan_children cs (read_attr (c_vendor c) [], read_attr (c_device c) [])"
          using dir by (auto simp: ids v' d')
        moreover have "fst (scan_children cs (read_attr (c_vendor c) [], read_attr (c_device c) []))
              = list_ex child_matches cs
            \<and> (\<not> fst (scan_children cs (read_attr (c_vendor c) [], read_attr (c_device c) []))
                \<longrightarrow> \<not> (fst (snd (scan_children cs
                            (read_attr (c_vendor c) [], read_attr (c_device c) []))) = XILINX_VENDOR
                      \<and> snd (snd (scan_children cs
                            (read_attr (c_vendor c) [], read_attr (c_device c) []))) = XILINX_US))"
          using no by (intro Cons.IH [OF rest]) simp
        ultimately show ?thesis
          using False by simp
      qed
    next
      case False
      then have neither: "\<not> delivers (c_device c)"
        using Cons.prems(1) dir by (simp add: both_or_neither_def)
      have v': "read_attr (c_vendor c) v = v"
        using False by (rule read_attr_silent)
      have d': "read_attr (c_device c) d = d"
        using neither by (rule read_attr_silent)
      have "\<not> child_matches c"
        using False by (auto simp: child_matches_def delivers_def XILINX_VENDOR_def)
      moreover have "scan_children (c # cs) ids = scan_children cs ids"
        using dir Cons.prems(2) by (auto simp: ids v' d')
      ultimately show ?thesis
        using Cons.IH [OF rest Cons.prems(2)] by simp
    qed
  qed
qed

lemma scan_bridges_well_formed:
  assumes "list_all (\<lambda>b. list_all both_or_neither (b_children b)) bs"
    and "\<not> (fst ids = XILINX_VENDOR \<and> snd ids = XILINX_US)"
  shows "scan_bridges bs ids =
           (case find has_matching_child bs of
              None \<Rightarrow> []
            | Some b \<Rightarrow> path_append SYSFS_PATH (b_name b))"
  using assms
proof (induction bs arbitrary: ids)
  case Nil
  then show ?case by simp
next
  case (Cons b bs)
  have here: "list_all both_or_neither (b_children b)"
    and rest: "list_all (\<lambda>b. list_all both_or_neither (b_children b)) bs"
    using Cons.prems(1) by simp_all
  note scan = scan_children_well_formed [OF here Cons.prems(2)]
  obtain found ids' where res: "scan_children (b_children b) ids = (found, ids')"
    by (cases "scan_children (b_children b) ids") auto
  show ?case
  proof (cases found)
    case True
    with scan res have "has_matching_child b"
      by (simp add: has_matching_child_def)
    with True res show ?thesis
      by simp
  next
    case False
    with scan res have "\<not> has_matching_child b"
      and "\<not> (fst ids' = XILINX_VENDOR \<and> snd ids' = XILINX_US)"
      by (simp_all add: has_matching_child_def)
    with False res Cons.IH [OF rest, of ids'] show ?thesis
      by simp
  qed
qed

lemma findXilinxRootPort_well_formed:
  assumes "list_all (\<lambda>b. list_all both_or_neither (b_children b)) bs"
  shows "findXilinxRootPort bs =
           (case find has_matching_child bs of
              None \<Rightarrow> []
            | Some b \<Rightarrow> path_append SYSFS_PATH (b_name b))"
  unfolding findXilinxRootPort_def
  using assms by (rule scan_bridges_well_formed) (simp add: XILINX_VENDOR_def)

end
